theory Spec2Isabelle
  imports Main "HOL-Library.Multiset" "HOL-Library.AList" "HOL-Library.Char_ord" "HOL-Library.List_Lexorder"
    "HOL-Library.Product_Lexorder"
begin

section \<open>Python values used by ran.py\<close>

text \<open>
  The program \<open>ran.py\<close> reads a chart file, derives its timestamp grid and its notes, and
  writes one variant of the chart for each reassignment of the six playable tracks. This
  theory embeds its functions and proves what they do.

  Text is a \<^typ>\<open>string\<close>: a list of 8-bit characters, read as the code points 0..255 of a
  Python \<open>str\<close>, as the file gives them after decoding and newline translation. With
  \<open>Char_ord\<close> and \<open>List_Lexorder\<close> the order \<open><\<close> on \<^typ>\<open>string\<close> is the code point by code
  point lexicographic order of Python's \<open>str\<close>, and with \<open>Product_Lexorder\<close> the order on
  tuples is Python's tuple comparison. Python's unbounded \<open>int\<close> is \<^typ>\<open>int\<close>; the limit
  of \<open>int()\<close> on strings of several thousand digits is left out. Exceptions are values of
  \<open>py_error\<close>; a function that can raise returns \<open>py_error + 'a\<close>, with \<open>Inl\<close> the exception.
\<close>

datatype py_error = IndexError | KeyError | ValueError | AttributeError

type_synonym position = "int \<times> int \<times> int"

definition newline :: char where
  "newline = CHR 0x0A"

definition tab :: char where
  "tab = CHR 0x09"

text \<open>\<open>str.isspace\<close> on the code points below 256.\<close>

definition is_space :: "char \<Rightarrow> bool" where
  "is_space c = (c \<in> set [CHR 0x09, CHR 0x0A, CHR 0x0B, CHR 0x0C, CHR 0x0D,
     CHR 0x1C, CHR 0x1D, CHR 0x1E, CHR 0x1F, CHR 0x20, CHR 0x85, CHR 0xA0])"

text \<open>\<open>s.strip()\<close>\<close>

definition strip :: "string \<Rightarrow> string" where
  "strip s = rev (dropWhile is_space (rev (dropWhile is_space s)))"

text \<open>\<open>s.startswith(p)\<close>\<close>

definition startswith :: "string \<Rightarrow> string \<Rightarrow> bool" where
  "startswith s p = (take (length p) s = p)"

text \<open>\<open>s.split(c)\<close> for a separator of one character: never the empty list.\<close>

fun split :: "char \<Rightarrow> string \<Rightarrow> string list" where
  "split c [] = [[]]"
| "split c (x # xs) =
     (if x = c then [] # split c xs
      else (case split c xs of [] \<Rightarrow> [[x]] | w # ws \<Rightarrow> (x # w) # ws))"

text \<open>
  Iterating over a text file (and \<open>readlines\<close>): the lines, each with its newline, the
  last one without when the text does not end in a newline.
\<close>

fun readlines :: "string \<Rightarrow> string list" where
  "readlines [] = []"
| "readlines (c # cs) =
     (if c = newline then [c] # readlines cs
      else (case readlines cs of [] \<Rightarrow> [[c]] | l # ls \<Rightarrow> (c # l) # ls))"

subsection \<open>Decimal numbers\<close>

definition is_digit :: "char \<Rightarrow> bool" where
  "is_digit c = (CHR ''0'' \<le> c \<and> c \<le> CHR ''9'')"

definition digit_val :: "char \<Rightarrow> nat" where
  "digit_val c = of_char c - 48"

definition digit_char :: "nat \<Rightarrow> char" where
  "digit_char d = char_of (48 + d)"

text \<open>
  The body of a decimal literal for \<open>int()\<close>: digits, with single underscores allowed
  between two digits. \<open>prev\<close> says whether the character before was a digit.
\<close>

fun int_body :: "bool \<Rightarrow> nat \<Rightarrow> string \<Rightarrow> nat option" where
  "int_body prev acc [] = (if prev then Some acc else None)"
| "int_body prev acc (c # cs) =
     (if is_digit c then int_body True (10 * acc + digit_val c) cs
      else if c = CHR ''_'' \<and> prev then int_body False acc cs
      else None)"

text \<open>\<open>int(s)\<close>: surrounding white space, an optional sign, a decimal body.\<close>

definition py_int :: "string \<Rightarrow> py_error + int" where
  "py_int s =
     (case strip s of
        [] \<Rightarrow> Inl ValueError
      | c # cs \<Rightarrow>
          if c = CHR ''-'' then
            (case int_body False 0 cs of None \<Rightarrow> Inl ValueError | Some n \<Rightarrow> Inr (- int n))
          else if c = CHR ''+'' then
            (case int_body False 0 cs of None \<Rightarrow> Inl ValueError | Some n \<Rightarrow> Inr (int n))
          else
            (case int_body False 0 (c # cs) of None \<Rightarrow> Inl ValueError | Some n \<Rightarrow> Inr (int n)))"

text \<open>\<open>map(int, xs)\<close> consumed to the end: the first failure is raised.\<close>

fun map_int :: "string list \<Rightarrow> py_error + int list" where
  "map_int [] = Inr []"
| "map_int (s # ss) =
     (case py_int s of
        Inl e \<Rightarrow> Inl e
      | Inr n \<Rightarrow> (case map_int ss of Inl e \<Rightarrow> Inl e | Inr ns \<Rightarrow> Inr (n # ns)))"

text \<open>\<open>a, b, c = map(int, xs)\<close>: a wrong number of values is a \<open>ValueError\<close> too.\<close>

definition unpack3_int :: "string list \<Rightarrow> py_error + position" where
  "unpack3_int xs =
     (case map_int xs of
        Inl e \<Rightarrow> Inl e
      | Inr ns \<Rightarrow> (case ns of [a, b, c] \<Rightarrow> Inr (a, b, c) | _ \<Rightarrow> Inl ValueError))"

text \<open>\<open>str(n)\<close> for a natural number.\<close>

fun dec :: "nat \<Rightarrow> string" where
  "dec n = (if n < 10 then [digit_char n] else dec (n div 10) @ [digit_char (n mod 10)])"

declare dec.simps [simp del]

text \<open>The format specification \<open>0w\<close> of an f-string: sign first, then zeros up to width \<open>w\<close>.\<close>

definition zero_pad :: "nat \<Rightarrow> int \<Rightarrow> string" where
  "zero_pad w n =
     (if n < 0 then CHR ''-'' # replicate (w - 1 - length (dec (nat (- n)))) CHR ''0'' @ dec (nat (- n))
      else replicate (w - length (dec (nat n))) CHR ''0'' @ dec (nat n))"

text \<open>\<open>f"{measure:03},{beat:02},{tick:02}"\<close>\<close>

fun timestamp :: "position \<Rightarrow> string" where
  "timestamp (m, b, t) = zero_pad 3 m @ '','' @ zero_pad 2 b @ '','' @ zero_pad 2 t"

text \<open>The positions whose text has the fixed widths 3, 2 and 2.\<close>

definition canonical :: "position \<Rightarrow> bool" where
  "canonical p = (case p of (m, b, t) \<Rightarrow> 0 \<le> m \<and> m \<le> 999 \<and> 0 \<le> b \<and> b \<le> 99 \<and> 0 \<le> t \<and> t \<le> 99)"

section \<open>The timestamp grid\<close>

text \<open>One dictionary of \<open>parse_beat_info\<close>: a time signature change.\<close>

record beat_entry =
  bi_measure :: int
  bi_beat :: int
  bi_tick :: int
  beats_per_measure :: int
  ticks_per_beat :: int

text \<open>A loop body either goes on with the list built so far, or has returned it.\<close>

datatype 'a flow = Continue 'a | Return 'a

text \<open>
  The \<open>while\<close> loop of \<open>generate_timestamps\<close>: the index of the active time signature
  moves on while the next entry starts at or before the measure.
\<close>

function advance :: "beat_entry list \<Rightarrow> nat \<Rightarrow> int \<Rightarrow> nat" where
  "advance beat_info i m =
     (if Suc i < length beat_info \<and> bi_measure (beat_info ! Suc i) \<le> m
      then advance beat_info (Suc i) m else i)"
  by pat_completeness auto
termination
  by (relation "measure (\<lambda>(beat_info, i, m). length beat_info - i)") auto

declare advance.simps [simp del]

text \<open>\<open>for tick in range(0, ticks_per_beat)\<close>, with the early \<open>return\<close>.\<close>

fun tick_loop :: "position \<Rightarrow> int \<Rightarrow> int \<Rightarrow> int list \<Rightarrow> string list \<Rightarrow> string list flow" where
  "tick_loop end_position m b [] timestamps = Continue timestamps"
| "tick_loop end_position m b (t # ts) timestamps =
     (if (m, b, t) > end_position then Return timestamps
      else tick_loop end_position m b ts (timestamps @ [timestamp (m, b, t)]))"

text \<open>\<open>for beat in range(1, beats_per_measure + 1)\<close>; \<open>ticks_per_beat = 48\<close>.\<close>

fun beat_loop :: "position \<Rightarrow> int \<Rightarrow> int list \<Rightarrow> string list \<Rightarrow> string list flow" where
  "beat_loop end_position m [] timestamps = Continue timestamps"
| "beat_loop end_position m (b # bs) timestamps =
     (case tick_loop end_position m b [0..48 - 1] timestamps of
        Return r \<Rightarrow> Return r
      | Continue timestamps' \<Rightarrow> beat_loop end_position m bs timestamps')"

text \<open>
  \<open>for measure in range(1, end_position[0] + 1)\<close>. Reading \<open>beat_info[i]\<close> raises
  \<open>IndexError\<close> when the list is empty.
\<close>

fun measure_loop ::
  "beat_entry list \<Rightarrow> position \<Rightarrow> nat \<Rightarrow> int list \<Rightarrow> string list \<Rightarrow> py_error + string list" where
  "measure_loop beat_info end_position i [] timestamps = Inr timestamps"
| "measure_loop beat_info end_position i (m # ms) timestamps =
     (let i' = advance beat_info i m in
      if i' < length beat_info then
        (case beat_loop end_position m [1..beats_per_measure (beat_info ! i')] timestamps of
           Return r \<Rightarrow> Inr r
         | Continue timestamps' \<Rightarrow> measure_loop beat_info end_position i' ms timestamps')
      else Inl IndexError)"

definition generate_timestamps :: "beat_entry list \<Rightarrow> position \<Rightarrow> py_error + string list" where
  "generate_timestamps beat_info end_position =
     measure_loop beat_info end_position 0 [1..fst end_position] []"

subsection \<open>The grid as the specification describes it\<close>




section \<open>Dictionaries\<close>

text \<open>
  A Python \<open>dict\<close> is an association list in insertion order, its keys distinct.
  \<open>d[k]\<close> raises \<open>KeyError\<close> for a missing key; \<open>d[k] = v\<close> is \<^const>\<open>AList.update\<close>, which
  keeps the place of a key already there and appends a new one.
\<close>

type_synonym ('k, 'v) dict = "('k \<times> 'v) list"

definition dict_get :: "('k, 'v) dict \<Rightarrow> 'k \<Rightarrow> py_error + 'v" where
  "dict_get d k = (case map_of d k of None \<Rightarrow> Inl KeyError | Some v \<Rightarrow> Inr v)"

text \<open>\<open>[d[k] for k in ks]\<close>\<close>

fun dict_get_all :: "('k, 'v) dict \<Rightarrow> 'k list \<Rightarrow> py_error + 'v list" where
  "dict_get_all d [] = Inr []"
| "dict_get_all d (k # ks) =
     (case dict_get d k of
        Inl e \<Rightarrow> Inl e
      | Inr v \<Rightarrow> (case dict_get_all d ks of Inl e \<Rightarrow> Inl e | Inr vs \<Rightarrow> Inr (v # vs)))"

text \<open>\<open>d[k].append(x)\<close>\<close>

definition dict_append :: "('k, 'v list) dict \<Rightarrow> 'k \<Rightarrow> 'v \<Rightarrow> py_error + ('k, 'v list) dict" where
  "dict_append d k x =
     (case map_of d k of
        None \<Rightarrow> Inl KeyError
      | Some _ \<Rightarrow> Inr (map (\<lambda>(k', v). if k' = k then (k', v @ [x]) else (k', v)) d))"

type_synonym track_dict = "(string, string list) dict"

section \<open>The chart document\<close>

text \<open>\<open>f"TRACK{num}"\<close> for \<open>num\<close> in \<open>range(1, 9)\<close>, and the dictionary of empty tracks.\<close>

definition track_names :: "string list" where
  "track_names = map (\<lambda>num. ''TRACK'' @ dec num) [1..<9]"

definition empty_tracks :: track_dict where
  "empty_tracks = map (\<lambda>name. (name, [])) track_names"

text \<open>
  \<open>line.startswith("#TRACK") and line[6] in "12345678"\<close>: the second operand is evaluated
  only when the first holds, and \<open>line[6]\<close> raises \<open>IndexError\<close> on a line of six characters.
\<close>

definition is_track_header :: "string \<Rightarrow> py_error + bool" where
  "is_track_header line =
     (if startswith line ''#TRACK'' then
        (if 6 < length line then Inr (line ! 6 \<in> set ''12345678'') else Inl IndexError)
      else Inr False)"

text \<open>
  The loop of \<open>parse_file\<close> over the stripped lines. \<open>current_track\<close> is \<open>None\<close> or
  \<open>line[1:]\<close>; \<open>elif current_track:\<close> is false for \<open>None\<close> and for the empty string.
\<close>

fun parse_loop :: "string option \<Rightarrow> track_dict \<Rightarrow> string list \<Rightarrow> py_error + track_dict" where
  "parse_loop current_track tracks [] = Inr tracks"
| "parse_loop current_track tracks (line # rest) =
     (case is_track_header line of
        Inl e \<Rightarrow> Inl e
      | Inr True \<Rightarrow> parse_loop (Some (tl line)) tracks rest
      | Inr False \<Rightarrow>
          if startswith line ''#END'' then parse_loop None tracks rest
          else (case current_track of
                  None \<Rightarrow> parse_loop current_track tracks rest
                | Some k \<Rightarrow>
                    if k = [] then parse_loop current_track tracks rest
                    else (case dict_append tracks k line of
                            Inl e \<Rightarrow> Inl e
                          | Inr tracks' \<Rightarrow> parse_loop current_track tracks' rest)))"

text \<open>
  \<open>parse_file\<close>: the file is \<open>None\<close> when the path does not exist, and then the result is
  \<open>None\<close>; otherwise every line is stripped and the loop runs from no open track.
\<close>

definition parse_file :: "string option \<Rightarrow> py_error + track_dict option" where
  "parse_file file =
     (case file of
        None \<Rightarrow> Inr None
      | Some content \<Rightarrow>
          (case parse_loop None empty_tracks (map strip (readlines content)) of
             Inl e \<Rightarrow> Inl e
           | Inr tracks \<Rightarrow> Inr (Some tracks)))"

text \<open>
  The loop of \<open>write_to_file\<close>. The result is the lines written, each followed by a newline
  in the file, and the exception that ended the loop, if any: what was written before
  stays in the file.
\<close>

fun emit :: "string list \<Rightarrow> string list \<times> py_error option \<Rightarrow> string list \<times> py_error option" where
  "emit xs (out, err) = (xs @ out, err)"

fun write_loop :: "track_dict \<Rightarrow> bool \<Rightarrow> string list \<Rightarrow> string list \<times> py_error option" where
  "write_loop track_data in_track_section [] = ([], None)"
| "write_loop track_data in_track_section (line # rest) =
     (case is_track_header line of
        Inl e \<Rightarrow> ([], Some e)
      | Inr True \<Rightarrow>
          (case dict_get track_data (tl line) of
             Inl e \<Rightarrow> ([line], Some e)
           | Inr track_lines \<Rightarrow> emit (line # track_lines) (write_loop track_data True rest))
      | Inr False \<Rightarrow>
          if startswith line ''#END'' \<and> in_track_section then
            emit [line] (write_loop track_data False rest)
          else if \<not> in_track_section then emit [line] (write_loop track_data in_track_section rest)
          else write_loop track_data in_track_section rest)"

text \<open>The text of the lines written, each with its newline.\<close>

definition file_text :: "string list \<Rightarrow> string" where
  "file_text ls = concat (map (\<lambda>l. l @ [newline]) ls)"

definition write_to_file :: "track_dict \<Rightarrow> string list \<Rightarrow> string \<times> py_error option" where
  "write_to_file track_data full_content =
     (case write_loop track_data False full_content of (out, err) \<Rightarrow> (file_text out, err))"

section \<open>Beat information and the end position\<close>

text \<open>The loop of \<open>parse_beat_info\<close> over the stripped lines.\<close>

fun beat_info_loop :: "bool \<Rightarrow> beat_entry list \<Rightarrow> string list \<Rightarrow> py_error + beat_entry list" where
  "beat_info_loop in_beat_info beat_info [] = Inr beat_info"
| "beat_info_loop in_beat_info beat_info (line # rest) =
     (if startswith line ''#BEAT INFO'' then beat_info_loop True beat_info rest
      else if startswith line ''#END'' \<and> in_beat_info then beat_info_loop False beat_info rest
      else if in_beat_info then
        (let parts = split tab line in
         if 3 \<le> length parts then
           (case unpack3_int (split CHR '','' (parts ! 0)) of
              Inl e \<Rightarrow> Inl e
            | Inr (m, b, t) \<Rightarrow>
                (case py_int (parts ! 1) of
                   Inl e \<Rightarrow> Inl e
                 | Inr beats \<Rightarrow>
                     (case py_int (parts ! 2) of
                        Inl e \<Rightarrow> Inl e
                      | Inr ticks \<Rightarrow>
                          beat_info_loop in_beat_info
                            (beat_info @ [\<lparr>bi_measure = m, bi_beat = b, bi_tick = t,
                               beats_per_measure = beats, ticks_per_beat = ticks\<rparr>]) rest)))
         else beat_info_loop in_beat_info beat_info rest)
      else beat_info_loop in_beat_info beat_info rest)"

definition parse_beat_info :: "string \<Rightarrow> py_error + beat_entry list" where
  "parse_beat_info content = beat_info_loop False [] (map strip (readlines content))"

text \<open>
  The loop of \<open>get_end_position\<close> over the stripped lines: \<open>line # rest\<close> is \<open>lines[i:]\<close>.
  After a marker at the end of the file the result is \<open>None\<close>; a marker followed by a line
  that starts with \<open>#END\<close> is passed over; otherwise the first three comma separated
  fields of the next line are converted, which raises \<open>ValueError\<close> when there are fewer
  than three or one is no integer.
\<close>

fun end_position_loop :: "string list \<Rightarrow> py_error + position option" where
  "end_position_loop [] = Inr None"
| "end_position_loop (line # rest) =
     (if startswith line ''#END POSITION'' then
        (case rest of
           [] \<Rightarrow> Inr None
         | next_line # _ \<Rightarrow>
             if startswith next_line ''#END'' then end_position_loop rest
             else (case unpack3_int (take 3 (split CHR '','' next_line)) of
                     Inl e \<Rightarrow> Inl e
                   | Inr p \<Rightarrow> Inr (Some p)))
      else end_position_loop rest)"

definition get_end_position :: "string \<Rightarrow> py_error + position option" where
  "get_end_position content = end_position_loop (map strip (readlines content))"

section \<open>Notes\<close>

text \<open>One note dictionary: the keys \<open>timestamp\<close> and \<open>type\<close>.\<close>

record note_dict =
  note_timestamp :: string
  note_type :: string

text \<open>
  The inner loop of \<open>parse_notes_in_tracks\<close>. The unpacking
  \<open>timestamp, note_type, _ = note_info\<close> takes exactly three values and raises
  \<open>ValueError\<close> for more.
\<close>

fun parse_track_notes :: "note_dict list \<Rightarrow> string list \<Rightarrow> py_error + note_dict list" where
  "parse_track_notes acc [] = Inr acc"
| "parse_track_notes acc (note_line # rest) =
     (let note_info = split tab note_line in
      if 3 \<le> length note_info then
        (case note_info of
           [ts, ty, _] \<Rightarrow>
             parse_track_notes
               (acc @ [\<lparr>note_timestamp = ts,
                         note_type = (if ty = ''0'' then ''chip'' else ''hold'')\<rparr>]) rest
         | _ \<Rightarrow> Inl ValueError)
      else parse_track_notes acc rest)"

text \<open>
  The outer loop, over the items of \<open>track_data\<close>; the notes of a track are appended to its
  own entry of \<open>structured_notes\<close>.
\<close>

fun notes_loop ::
  "(string, note_dict list) dict \<Rightarrow> (string \<times> string list) list \<Rightarrow> py_error + (string, note_dict list) dict" where
  "notes_loop structured_notes [] = Inr structured_notes"
| "notes_loop structured_notes ((track, notes) # items) =
     (if track \<in> set [''TRACK1'', ''TRACK8''] then notes_loop structured_notes items
      else (case dict_get structured_notes track of
              Inl e \<Rightarrow> Inl e
            | Inr old \<Rightarrow>
                (case parse_track_notes old notes of
                   Inl e \<Rightarrow> Inl e
                 | Inr new \<Rightarrow> notes_loop (AList.update track new structured_notes) items)))"

definition parse_notes_in_tracks :: "track_dict \<Rightarrow> py_error + (string, note_dict list) dict" where
  "parse_notes_in_tracks track_data =
     notes_loop
       (map (\<lambda>track. (track, [])) (filter (\<lambda>track. track \<notin> set [''TRACK1'', ''TRACK8'']) (map fst track_data)))
       track_data"

text \<open>
  \<open>identify_chip_timestamps\<close> and \<open>identify_hold_timestamps\<close> differ in the note type they
  count only. \<open>bump\<close> is the counter update, \<open>count_notes\<close> the loop over one track,
  \<open>count_tracks\<close> the loop over the relevant tracks, and \<open>sorted(d.items())\<close> is \<open>sort\<close> on
  the pairs, whose order is Python's tuple order.
\<close>

definition bump :: "(string, int) dict \<Rightarrow> string \<Rightarrow> (string, int) dict" where
  "bump d ts = (case map_of d ts of None \<Rightarrow> AList.update ts 1 d | Some c \<Rightarrow> AList.update ts (c + 1) d)"

fun count_notes :: "string \<Rightarrow> (string, int) dict \<Rightarrow> note_dict list \<Rightarrow> (string, int) dict" where
  "count_notes ty d [] = d"
| "count_notes ty d (n # ns) =
     (if note_type n = ty then count_notes ty (bump d (note_timestamp n)) ns
      else count_notes ty d ns)"

fun count_tracks ::
  "string \<Rightarrow> (string, note_dict list) dict \<Rightarrow> (string, int) dict \<Rightarrow> string list \<Rightarrow> py_error + (string, int) dict" where
  "count_tracks ty structured_notes d [] = Inr d"
| "count_tracks ty structured_notes d (track # tracks) =
     (case dict_get structured_notes track of
        Inl e \<Rightarrow> Inl e
      | Inr notes \<Rightarrow> count_tracks ty structured_notes (count_notes ty d notes) tracks)"

definition relevant_tracks :: "string list" where
  "relevant_tracks = map (\<lambda>i. ''TRACK'' @ dec i) [2..<8]"

definition identify_chip_timestamps :: "(string, note_dict list) dict \<Rightarrow> py_error + (string, int) dict" where
  "identify_chip_timestamps structured_notes =
     (case count_tracks ''chip'' structured_notes [] relevant_tracks of
        Inl e \<Rightarrow> Inl e
      | Inr chip_timestamps \<Rightarrow> Inr (sort chip_timestamps))"

definition identify_hold_timestamps :: "(string, note_dict list) dict \<Rightarrow> py_error + (string, int) dict" where
  "identify_hold_timestamps structured_notes =
     (case count_tracks ''hold'' structured_notes [] relevant_tracks of
        Inl e \<Rightarrow> Inl e
      | Inr hold_timestamps \<Rightarrow> Inr (sort hold_timestamps))"

section \<open>The permutation engine and the run\<close>

text \<open>
  \<open>itertools.permutations\<close> of a list: the tuples in the lexicographic order of the
  positions chosen. \<open>selections\<close> lists every element with the others left in order.
\<close>

fun selections :: "'a list \<Rightarrow> ('a \<times> 'a list) list" where
  "selections [] = []"
| "selections (x # xs) = (x, xs) # map (\<lambda>(y, ys). (y, x # ys)) (selections xs)"

fun permutations_of_length :: "nat \<Rightarrow> 'a list \<Rightarrow> 'a list list" where
  "permutations_of_length 0 xs = [[]]"
| "permutations_of_length (Suc n) xs =
     concat (map (\<lambda>(y, ys). map ((#) y) (permutations_of_length n ys)) (selections xs))"

definition generate_all_combinations :: "'a list \<Rightarrow> 'a list list" where
  "generate_all_combinations elements = permutations_of_length (length elements) elements"

text \<open>
  The constants of \<open>main\<close>. A lane letter is a character, so an order such as
  \<open>['a', 'b', 'c', 'd', 'L', 'R']\<close> and its \<open>''.join\<close> are the same string.
\<close>

definition track_identifiers_inverse :: "(char, string) dict" where
  "track_identifiers_inverse =
     [(CHR ''a'', ''TRACK3''), (CHR ''b'', ''TRACK4''), (CHR ''c'', ''TRACK5''),
      (CHR ''d'', ''TRACK6''), (CHR ''L'', ''TRACK2''), (CHR ''R'', ''TRACK7'')]"

definition original_keys :: "string list" where
  "original_keys = [''TRACK1'', ''TRACK8'']"

text \<open>The loop \<open>new_track_data[new_key] = track_data[original_key]\<close> over the zipped keys.\<close>

fun fill_track_data :: "track_dict \<Rightarrow> (string \<times> string) list \<Rightarrow> track_dict \<Rightarrow> py_error + track_dict" where
  "fill_track_data track_data [] new_track_data = Inr new_track_data"
| "fill_track_data track_data ((original_key, new_key) # pairs) new_track_data =
     (case dict_get track_data original_key of
        Inl e \<Rightarrow> Inl e
      | Inr v \<Rightarrow> fill_track_data track_data pairs (AList.update new_key v new_track_data))"

text \<open>The track contents of one variant, from its \<open>specific_order\<close>.\<close>

definition new_track_data :: "track_dict \<Rightarrow> string \<Rightarrow> py_error + track_dict" where
  "new_track_data track_data specific_order =
     (case dict_get_all track_identifiers_inverse specific_order of
        Inl e \<Rightarrow> Inl e
      | Inr specific_track_order \<Rightarrow>
          fill_track_data track_data
            (zip (original_keys @ specific_track_order)
               (original_keys @ [''TRACK3'', ''TRACK4'', ''TRACK5'', ''TRACK6'', ''TRACK2'', ''TRACK7'']))
            [])"

text \<open>The orders of the two nested loops, in the order the loops reach them.\<close>

definition all_orders :: "string list" where
  "all_orders =
     concat (map (\<lambda>button_combination. map (\<lambda>fx_combination. button_combination @ fx_combination)
        (generate_all_combinations ''LR'')) (generate_all_combinations ''abcd''))"

definition new_file_name :: "string \<Rightarrow> string \<Rightarrow> string" where
  "new_file_name base_file_name specific_order = base_file_name @ ''_ran_'' @ specific_order @ ''.vox''"

text \<open>
  The body of the loops for each order: the files written, by name inside the new
  directory, and the exception that stopped the run, if any. A file whose writing raised
  is there with the part written.
\<close>

fun variants_loop ::
  "string \<Rightarrow> track_dict \<Rightarrow> string list \<Rightarrow> string list \<Rightarrow> (string \<times> string) list \<times> py_error option" where
  "variants_loop base_file_name track_data full_content [] = ([], None)"
| "variants_loop base_file_name track_data full_content (specific_order # orders) =
     (case new_track_data track_data specific_order of
        Inl e \<Rightarrow> ([], Some e)
      | Inr ntd \<Rightarrow>
          (case write_to_file ntd full_content of
             (written, Some e) \<Rightarrow> ([(new_file_name base_file_name specific_order, written)], Some e)
           | (written, None) \<Rightarrow>
               (case variants_loop base_file_name track_data full_content orders of
                  (files, err) \<Rightarrow> ((new_file_name base_file_name specific_order, written) # files, err))))"

text \<open>
  What a run of \<open>main\<close> leaves: the message \<open>File not found!\<close>, the message
  \<open>Could not find the end position in the file.\<close>, an uncaught exception with the files
  written before it, or the files of a run that reached its end.
\<close>

datatype outcome =
  File_not_found
| No_end_position
| Raised py_error "(string \<times> string) list"
| Finished "(string \<times> string) list"

text \<open>
  \<open>main\<close>, given the value of the flag \<open>--s-random\<close>, the base name of the input path and
  the file there (\<open>None\<close> when the path does not exist). The file is read again by each
  function and taken to stay the same. Creating the output directory and printing the two
  dictionaries of counts are left out. The value \<open>s_random\<close> is assigned and never read.
\<close>

definition main :: "bool \<Rightarrow> string \<Rightarrow> string option \<Rightarrow> outcome" where
  "main s_random base_file_name file =
     (case file of
        None \<Rightarrow> File_not_found
      | Some content \<Rightarrow>
         (let full_content = map strip (readlines content) in
          case parse_beat_info content of
            Inl e \<Rightarrow> Raised e []
          | Inr beat_info \<Rightarrow>
         (case get_end_position content of
            Inl e \<Rightarrow> Raised e []
          | Inr None \<Rightarrow> No_end_position
          | Inr (Some end_position) \<Rightarrow>
         (case generate_timestamps beat_info end_position of
            Inl e \<Rightarrow> Raised e []
          | Inr timestamps \<Rightarrow>
         (case parse_file (Some content) of
            Inl e \<Rightarrow> Raised e []
          | Inr track_data \<Rightarrow>
         (case (case track_data of
                  None \<Rightarrow> Inl AttributeError
                | Some td \<Rightarrow> parse_notes_in_tracks td) of
            Inl e \<Rightarrow> Raised e []
          | Inr structured_notes \<Rightarrow>
         (case identify_chip_timestamps structured_notes of
            Inl e \<Rightarrow> Raised e []
          | Inr sorted_chip_timestamps \<Rightarrow>
         (case identify_hold_timestamps structured_notes of
            Inl e \<Rightarrow> Raised e []
          | Inr sorted_hold_timestamps \<Rightarrow>
         (case track_data of
            None \<Rightarrow> Finished []
          | Some td \<Rightarrow>
              if td = [] then Finished []
              else (case variants_loop base_file_name td full_content all_orders of
                      (files, None) \<Rightarrow> Finished files
                    | (files, Some e) \<Rightarrow> Raised e files))))))))))"

section \<open>Notions of the specification\<close>

text \<open>
  The condition on the stripped lines under which neither \<open>parse_file\<close> nor
  \<open>write_to_file\<close> raises: a line that starts with \<open>#TRACK\<close> has a seventh character
  that is none of \<open>1\<close> to \<open>8\<close>, or is \<open>#TRACKn\<close> with one digit \<open>n\<close> from 1 to 8 and
  nothing after it.
\<close>

definition header_line_ok :: "string \<Rightarrow> bool" where
  "header_line_ok l =
     (startswith l ''#TRACK'' \<longrightarrow>
        (7 \<le> length l \<and> l ! 6 \<notin> set ''12345678'') \<or> l \<in> set (map (\<lambda>n. ''#TRACK'' @ dec n) [1..<9]))"

definition headers_well_formed :: "string list \<Rightarrow> bool" where
  "headers_well_formed ls = (\<forall>l\<in>set ls. header_line_ok l)"









text \<open>
  A small chart, for evaluating the functions: a position marker, one time signature and
  three track sections.
\<close>

definition small_chart_lines :: "string list" where
  "small_chart_lines =
     [''#END POSITION'', ''001,01,01'', ''#END'',
      ''#BEAT INFO'', ''001,01,00'' @ [tab] @ ''4'' @ [tab] @ ''4'', ''#END'',
      ''#TRACK1'', ''laser'', ''#END'',
      ''#TRACK2'', ''001,01,00'' @ [tab] @ ''0'' @ [tab] @ ''2'', ''#END'',
      ''#TRACK3'', ''001,01,00'' @ [tab] @ ''0'' @ [tab] @ ''2'',
                   ''001,01,01'' @ [tab] @ ''24'' @ [tab] @ ''2'', ''#END'']"

definition small_chart :: string where
  "small_chart = file_text small_chart_lines"

section \<open>Properties of the timestamp grid\<close>


















section \<open>String order of canonical timestamps\<close>

lemma digit_char_less: "a < 10 \<Longrightarrow> b < 10 \<Longrightarrow> digit_char a < digit_char b \<longleftrightarrow> a < b"
  by (simp add: digit_char_def less_char_def)

lemma digit_char_eq: "a < 10 \<Longrightarrow> b < 10 \<Longrightarrow> digit_char a = digit_char b \<longleftrightarrow> a = b"
proof -
  assume "a < 10" "b < 10"
  then have "of_char (digit_char a) = 48 + a" "of_char (digit_char b) = 48 + b"
    by (simp_all add: digit_char_def)
  then show ?thesis by (metis add_left_cancel)
qed

lemma dec1: "n < 10 \<Longrightarrow> dec n = [digit_char n]"
  by (subst dec.simps) simp

lemma dec2: "10 \<le> n \<Longrightarrow> n < 100 \<Longrightarrow> dec n = [digit_char (n div 10), digit_char (n mod 10)]"
  by (subst dec.simps) (simp add: dec1)

lemma dec3: "100 \<le> n \<Longrightarrow> n < 1000 \<Longrightarrow>
    dec n = [digit_char (n div 100), digit_char (n div 10 mod 10), digit_char (n mod 10)]"
  by (subst dec.simps) (simp add: dec2 div_mult2_eq [symmetric])

lemma digit_char_0: "digit_char 0 = CHR ''0''"
  by code_simp

lemma zero_pad2:
  assumes "0 \<le> n" and "n \<le> 99"
  shows "zero_pad 2 n = [digit_char (nat n div 10), digit_char (nat n mod 10)]"
proof (cases "nat n < 10")
  case True
  then show ?thesis
    using assms by (simp add: zero_pad_def dec1 digit_char_0 numeral_2_eq_2)
next
  case False
  then show ?thesis
    using assms by (simp add: zero_pad_def dec2)
qed

lemma zero_pad3:
  assumes "0 \<le> n" and "n \<le> 999"
  shows "zero_pad 3 n =
    [digit_char (nat n div 100), digit_char (nat n div 10 mod 10), digit_char (nat n mod 10)]"
proof -
  consider "nat n < 10" | "10 \<le> nat n" "nat n < 100" | "100 \<le> nat n"
    by linarith
  then show ?thesis
  proof cases
    case 1
    then show ?thesis
      using assms by (simp add: zero_pad_def dec1 digit_char_0 numeral_3_eq_3)
  next
    case 2
    then show ?thesis
      using assms by (simp add: zero_pad_def dec2 digit_char_0 numeral_3_eq_3)
  next
    case 3
    then show ?thesis
      using assms by (simp add: zero_pad_def dec3)
  qed
qed

lemma lex10_aux:
  fixes a b c d :: nat
  assumes "b < 10" "d < 10"
  shows "(a < c \<or> a = c \<and> b < d) \<longleftrightarrow> 10 * a + b < 10 * c + d"
    and "(a = c \<and> b = d) \<longleftrightarrow> 10 * a + b = 10 * c + d"
  using assms by (cases a c rule: linorder_cases; auto)+

lemma lex10:
  fixes x y :: nat
  shows "(x div 10 < y div 10 \<or> x div 10 = y div 10 \<and> x mod 10 < y mod 10) \<longleftrightarrow> x < y"
    and "(x div 10 = y div 10 \<and> x mod 10 = y mod 10) \<longleftrightarrow> x = y"
  using lex10_aux [of "x mod 10" "y mod 10" "x div 10" "y div 10"] by simp_all

lemma lex100:
  fixes x y :: nat
  shows "(x div 100 < y div 100 \<or> x div 100 = y div 100 \<and>
      (x div 10 mod 10 < y div 10 mod 10 \<or> x div 10 mod 10 = y div 10 mod 10 \<and> x mod 10 < y mod 10))
    \<longleftrightarrow> x < y"
  and "(x div 100 = y div 100 \<and> x div 10 mod 10 = y div 10 mod 10 \<and> x mod 10 = y mod 10)
    \<longleftrightarrow> x = y"
proof -
  have h: "x div 100 = x div 10 div 10" "y div 100 = y div 10 div 10"
    by (simp_all add: div_mult2_eq [symmetric])
  note a = lex10(1) [of "x div 10" "y div 10"] and b = lex10(2) [of "x div 10" "y div 10"]
    and c = lex10(1) [of x y] and d = lex10(2) [of x y]
  show "(x div 100 < y div 100 \<or> x div 100 = y div 100 \<and>
      (x div 10 mod 10 < y div 10 mod 10 \<or> x div 10 mod 10 = y div 10 mod 10 \<and> x mod 10 < y mod 10))
    \<longleftrightarrow> x < y"
    unfolding h using a b c d by blast
  show "(x div 100 = y div 100 \<and> x div 10 mod 10 = y div 10 mod 10 \<and> x mod 10 = y mod 10)
    \<longleftrightarrow> x = y"
    unfolding h using a b c d by blast
qed

lemma zero_pad2_less:
  assumes "0 \<le> a" "a \<le> 99" "0 \<le> b" "b \<le> 99"
  shows "zero_pad 2 a < zero_pad 2 b \<longleftrightarrow> a < b" and "zero_pad 2 a = zero_pad 2 b \<longleftrightarrow> a = b"
proof -
  have d: "nat a div 10 < 10" "nat a mod 10 < 10" "nat b div 10 < 10" "nat b mod 10 < 10"
    using assms by auto
  show "zero_pad 2 a < zero_pad 2 b \<longleftrightarrow> a < b"
    using assms by (simp add: zero_pad2 digit_char_less digit_char_eq d lex10) linarith
  show "zero_pad 2 a = zero_pad 2 b \<longleftrightarrow> a = b"
    using assms by (simp add: zero_pad2 digit_char_less digit_char_eq d lex10) linarith
qed

lemma zero_pad3_less:
  assumes "0 \<le> a" "a \<le> 999" "0 \<le> b" "b \<le> 999"
  shows "zero_pad 3 a < zero_pad 3 b \<longleftrightarrow> a < b" and "zero_pad 3 a = zero_pad 3 b \<longleftrightarrow> a = b"
proof -
  have d: "nat a div 100 < 10" "nat a div 10 mod 10 < 10" "nat a mod 10 < 10"
     "nat b div 100 < 10" "nat b div 10 mod 10 < 10" "nat b mod 10 < 10"
    using assms by auto
  show "zero_pad 3 a < zero_pad 3 b \<longleftrightarrow> a < b"
    using assms by (simp add: zero_pad3 digit_char_less digit_char_eq d lex100) linarith
  show "zero_pad 3 a = zero_pad 3 b \<longleftrightarrow> a = b"
    using assms by (simp add: zero_pad3 digit_char_less digit_char_eq d lex100) linarith
qed

lemma append_less_same_length:
  fixes xs ys :: string
  shows "length xs = length ys \<Longrightarrow> xs @ us < ys @ vs \<longleftrightarrow> xs < ys \<or> xs = ys \<and> us < vs"
  by (induction xs ys rule: list_induct2) auto

lemma length_zero_pad2: "0 \<le> n \<Longrightarrow> n \<le> 99 \<Longrightarrow> length (zero_pad 2 n) = 2"
  by (simp add: zero_pad2)

lemma length_zero_pad3: "0 \<le> n \<Longrightarrow> n \<le> 999 \<Longrightarrow> length (zero_pad 3 n) = 3"
  by (simp add: zero_pad3)

lemma timestamp_less:
  assumes "canonical p" "canonical q"
  shows "timestamp p < timestamp q \<longleftrightarrow> p < q"
proof -
  obtain m b t where p: "p = (m, b, t)" by (cases p)
  obtain m' b' t' where q: "q = (m', b', t')" by (cases q)
  have r: "0 \<le> m" "m \<le> 999" "0 \<le> b" "b \<le> 99" "0 \<le> t" "t \<le> 99"
    "0 \<le> m'" "m' \<le> 999" "0 \<le> b'" "b' \<le> 99" "0 \<le> t'" "t' \<le> 99"
    using assms by (simp_all add: canonical_def p q)
  have "timestamp p < timestamp q \<longleftrightarrow>
      m < m' \<or> m = m' \<and> (b < b' \<or> b = b' \<and> t < t')"
    by (simp add: p q append_less_same_length length_zero_pad2 length_zero_pad3 r
        zero_pad2_less zero_pad3_less)
  then show ?thesis by (auto simp: p q less_prod_def)
qed

lemma timestamp_eq:
  assumes "canonical p" "canonical q"
  shows "timestamp p = timestamp q \<longleftrightarrow> p = q"
  using timestamp_less [OF assms] timestamp_less [OF assms(2,1)]
  by (metis less_irrefl not_less_iff_gr_or_eq)

lemma timestamp_le:
  assumes "canonical p" "canonical q"
  shows "timestamp p \<le> timestamp q \<longleftrightarrow> p \<le> q"
  using timestamp_less [OF assms] timestamp_eq [OF assms] by (simp add: le_less)

lemma sort_timestamps:
  assumes "\<forall>x\<in>set ps. canonical x"
  shows "sort (map timestamp ps) = map timestamp (sort ps)"
proof -
  have "sorted_wrt (\<le>) (sort ps)"
    by simp
  then have "sorted_wrt (\<lambda>x y. timestamp x \<le> timestamp y) (sort ps)"
    by (rule sorted_wrt_mono_rel [rotated]) (use assms in \<open>simp add: timestamp_le\<close>)
  then have "sorted (map timestamp (sort ps))"
    by (simp add: sorted_map)
  moreover have "mset (map timestamp (sort ps)) = mset (map timestamp ps)"
    by simp
  ultimately show ?thesis
    by (rule properties_for_sort [rotated])
qed

lemma sorted_map_fst:
  fixes xs :: "('a::linorder \<times> 'b::linorder) list"
  shows "sorted xs \<Longrightarrow> sorted (map fst xs)"
  by (induction xs) (auto simp: less_eq_prod_def)

lemma identify_chip_sorted:
  "identify_chip_timestamps sn = Inr r \<Longrightarrow> sorted (map fst r)"
  by (auto simp: identify_chip_timestamps_def sorted_map_fst split: sum.splits)

text \<open>
  C8. For positions whose measure is at most 999 and whose beat and tick are at most 99
  (\<open>canonical\<close>), the zero padded texts compare as strings exactly as the triples compare
  lexicographically. So sorting the texts is sorting the positions, and when the keys
  that \<open>identify_chip_timestamps\<close> returns are the texts of such positions, they stand in
  the numeric order of the positions.
\<close>

theorem timestamp_order:
  assumes "canonical p" and "canonical q"
  shows "(timestamp p < timestamp q \<longleftrightarrow> p < q)
     \<and> (timestamp p = timestamp q \<longleftrightarrow> p = q)
     \<and> (timestamp p \<le> timestamp q \<longleftrightarrow> p \<le> q)
     \<and> ((\<forall>x\<in>set ps. canonical x) \<longrightarrow> sort (map timestamp ps) = map timestamp (sort ps))
     \<and> ((\<forall>x\<in>set ps. canonical x) \<and> identify_chip_timestamps sn = Inr r
          \<and> mset (map fst r) = mset (map timestamp ps)
        \<longrightarrow> map fst r = map timestamp (sort ps))"
proof -
  have keys: "map fst r = map timestamp (sort ps)"
    if c: "\<forall>x\<in>set ps. canonical x" and r: "identify_chip_timestamps sn = Inr r"
      and m: "mset (map fst r) = mset (map timestamp ps)"
  proof -
    have "sort (map timestamp ps) = map fst r"
      using m identify_chip_sorted [OF r] by (rule properties_for_sort)
    then show ?thesis
      using sort_timestamps [OF c] by simp
  qed
  show ?thesis
    using timestamp_less [OF assms] timestamp_eq [OF assms] timestamp_le [OF assms]
      sort_timestamps [of ps] keys by blast
qed

theorem timestamp_order_witness:
  "canonical (1, 1, 5) \<and> canonical (1, 2, 0)
   \<and> timestamp (1, 1, 5) = ''001,01,05'' \<and> timestamp (1, 2, 0) = ''001,02,00''
   \<and> timestamp (1, 1, 5) < timestamp (1, 2, 0) \<and> ((1, 1, 5) :: position) < (1, 2, 0)
   \<and> sort (map timestamp [(1, 2, 0), (1, 1, 5)]) = map timestamp (sort [(1, 2, 0), (1, 1, 5)])
   \<and> sort (map timestamp [(1, 2, 0), (1, 1, 5)]) = [''001,01,05'', ''001,02,00'']"
proof -
  have c: "canonical (1, 1, 5)" "canonical (1, 2, 0)"
    by (simp_all add: canonical_def)
  have all: "\<forall>x\<in>set [(1, 2, 0), (1, 1, 5)]. canonical x"
    using c by simp
  have t: "timestamp (1, 1, 5) = ''001,01,05''" "timestamp (1, 2, 0) = ''001,02,00''"
    by code_simp+
  have "sort (map timestamp [(1, 2, 0), (1, 1, 5)]) = [''001,01,05'', ''001,02,00'']"
    unfolding list.map t by simp
  then show ?thesis
    using timestamp_order [OF c, of "[(1, 2, 0), (1, 1, 5)]"] c all t by simp
qed

section \<open>Track sections\<close>

lemma startswith_END_POSITION: "startswith ''#END POSITION'' ''#END''"
  by (simp add: startswith_def)

lemma startswith_TRACK: "startswith l ''#TRACK'' \<longleftrightarrow> take 6 l = ''#TRACK''"
proof -
  have "length ''#TRACK'' = 6"
    by simp
  then show ?thesis
    unfolding startswith_def by (simp only:)
qed

lemma startswith_END: "startswith l ''#END'' \<longleftrightarrow> take 4 l = ''#END''"
proof -
  have "length ''#END'' = 4"
    by simp
  then show ?thesis
    unfolding startswith_def by (simp only:)
qed

lemma startswith_END_not_TRACK:
  assumes "startswith l ''#END''"
  shows "\<not> startswith l ''#TRACK''"
proof
  assume "startswith l ''#TRACK''"
  then have "take 4 (take 6 l) = take 4 ''#TRACK''"
    by (simp only: startswith_TRACK)
  moreover have "take 4 (take 6 l) = take 4 l"
    by simp
  moreover have "take 4 l = ''#END''"
    using assms by (simp only: startswith_END)
  ultimately show False
    by simp
qed

lemma header_END: "startswith l ''#END'' \<Longrightarrow> is_track_header l = Inr False"
  by (simp add: is_track_header_def startswith_END_not_TRACK)

lemma header_not_TRACK: "\<not> startswith l ''#TRACK'' \<Longrightarrow> is_track_header l = Inr False"
  by (simp add: is_track_header_def)

lemma parse_loop_outside:
  "\<forall>l\<in>set xs. \<not> startswith l ''#TRACK'' \<Longrightarrow>
   parse_loop None tracks (xs @ rest) = parse_loop None tracks rest"
  by (induction xs) (simp_all add: header_not_TRACK)

lemma write_loop_outside:
  "\<forall>l\<in>set xs. \<not> startswith l ''#TRACK'' \<Longrightarrow>
   write_loop td False (xs @ rest) = emit xs (write_loop td False rest)"
proof (induction xs)
  case Nil
  show ?case by (cases "write_loop td False rest") simp
next
  case (Cons x xs)
  then show ?case
    by (cases "write_loop td False rest") (simp add: header_not_TRACK)
qed

text \<open>
  C10. A stripped line that starts with \<open>#END\<close>, the marker line \<open>#END POSITION\<close> among
  them, closes the open track section in both loops. In \<open>parse_file\<close> nothing is
  collected from that line on until the next header: the result is that of the rest of
  the file read with no track open and the buffers as they were. In \<open>write_to_file\<close> the
  line is written, and the lines after it that do not start with \<open>#TRACK\<close> are written
  as they are.
\<close>

theorem end_line_closes_section:
  assumes "startswith e ''#END''" and "\<forall>l\<in>set xs. \<not> startswith l ''#TRACK''"
  shows "parse_loop (Some k) tracks (e # xs @ rest) = parse_loop None tracks rest
     \<and> write_loop td True (e # xs @ rest) = emit (e # xs) (write_loop td False rest)
     \<and> startswith ''#END POSITION'' ''#END''"
proof -
  have "parse_loop (Some k) tracks (e # xs @ rest) = parse_loop None tracks (xs @ rest)"
    using assms(1) by (simp add: header_END)
  then have parse: "parse_loop (Some k) tracks (e # xs @ rest) = parse_loop None tracks rest"
    using assms(2) by (simp add: parse_loop_outside)
  have "write_loop td True (e # xs @ rest) = emit [e] (write_loop td False (xs @ rest))"
    using assms(1) by (simp add: header_END)
  then have "write_loop td True (e # xs @ rest) = emit (e # xs) (write_loop td False rest)"
    using assms(2) by (cases "write_loop td False rest") (simp add: write_loop_outside)
  with parse show ?thesis
    by (simp add: startswith_END_POSITION)
qed

theorem end_line_closes_section_witness:
  "startswith ''#END POSITION'' ''#END''
   \<and> parse_loop (Some ''TRACK2'') empty_tracks [''#END POSITION'', ''095,01,00'', ''#END'', ''#TRACK3'', ''c'']
     = parse_loop None empty_tracks [''#TRACK3'', ''c'']
   \<and> parse_loop None empty_tracks [''#TRACK2'', ''a'', ''#END POSITION'', ''095,01,00'', ''#END'']
     = Inr ((''TRACK1'', []) # (''TRACK2'', [''a'']) # drop 2 empty_tracks)
   \<and> write_loop [(''TRACK2'', [''a''])] False [''#TRACK2'', ''a'', ''#END POSITION'', ''095,01,00'', ''#END'']
     = ([''#TRACK2'', ''a'', ''#END POSITION'', ''095,01,00'', ''#END''], None)"
proof -
  have e: "startswith ''#END POSITION'' ''#END''"
    by (simp add: startswith_def)
  have x: "\<forall>l\<in>set [''095,01,00'', ''#END'']. \<not> startswith l ''#TRACK''"
    by (simp add: startswith_def)
  have p: "parse_loop None empty_tracks [''#TRACK2'', ''a'', ''#END POSITION'', ''095,01,00'', ''#END'']
     = Inr ((''TRACK1'', []) # (''TRACK2'', [''a'']) # drop 2 empty_tracks)"
    by code_simp
  have w: "write_loop [(''TRACK2'', [''a''])] False [''#TRACK2'', ''a'', ''#END POSITION'', ''095,01,00'', ''#END'']
     = ([''#TRACK2'', ''a'', ''#END POSITION'', ''095,01,00'', ''#END''], None)"
    by code_simp
  show ?thesis
    using end_line_closes_section [OF e x, of "''TRACK2''" empty_tracks "[''#TRACK3'', ''c'']"] e p w
    by simp
qed

lemma track_names_eq:
  "track_names = [''TRACK1'', ''TRACK2'', ''TRACK3'', ''TRACK4'', ''TRACK5'', ''TRACK6'', ''TRACK7'', ''TRACK8'']"
  by code_simp

lemma header_names_eq:
  "map (\<lambda>n. ''#TRACK'' @ dec n) [1..<9] = map ((#) CHR ''#'') track_names"
  by code_simp

lemma header_of_name:
  assumes "k \<in> set track_names"
  shows "is_track_header (CHR ''#'' # k) = Inr True"
  using assms unfolding track_names_eq by (auto simp: is_track_header_def startswith_def)

lemma startswith_TRACK_Cons: "startswith l ''#TRACK'' \<Longrightarrow> l = CHR ''#'' # tl l"
  by (cases l) (simp_all add: startswith_def)

lemma header_line_ok_iff:
  "header_line_ok l \<longleftrightarrow>
     is_track_header l = Inr False \<or> is_track_header l = Inr True \<and> tl l \<in> set track_names"
proof (cases "startswith l ''#TRACK''")
  case False
  then show ?thesis
    by (simp add: is_track_header_def header_line_ok_def)
next
  case True
  note l = startswith_TRACK_Cons [OF True]
  have mem: "l \<in> set (map ((#) CHR ''#'') track_names) \<longleftrightarrow> tl l \<in> set track_names"
  proof
    assume "l \<in> set (map ((#) CHR ''#'') track_names)"
    then show "tl l \<in> set track_names" by auto
  next
    assume "tl l \<in> set track_names"
    then have "CHR ''#'' # tl l \<in> set (map ((#) CHR ''#'') track_names)" by simp
    then show "l \<in> set (map ((#) CHR ''#'') track_names)" using l by simp
  qed
  have ok: "header_line_ok l \<longleftrightarrow>
      (7 \<le> length l \<and> l ! 6 \<notin> set ''12345678'') \<or> tl l \<in> set track_names"
    using True unfolding header_line_ok_def header_names_eq mem by simp
  show ?thesis
  proof (cases "tl l \<in> set track_names")
    case names: True
    then have "is_track_header (CHR ''#'' # tl l) = Inr True"
      by (rule header_of_name)
    then show ?thesis
      using names l ok by simp
  next
    case False
    have "7 \<le> length l \<longleftrightarrow> 6 < length l"
      by auto
    then show ?thesis
      unfolding ok using False True by (auto simp: is_track_header_def)
  qed
qed

lemma wf_Cons: "headers_well_formed (l # ls) \<longleftrightarrow> header_line_ok l \<and> headers_well_formed ls"
  by (simp add: headers_well_formed_def)

lemma map_fst_dict_append: "dict_append d k x = Inr d' \<Longrightarrow> map fst d' = map fst d"
  by (auto simp: dict_append_def split: option.splits)

lemma dict_append_ok: "k \<in> fst ` set d \<Longrightarrow> \<exists>d'. dict_append d k x = Inr d'"
  by (auto simp: dict_append_def map_of_eq_None_iff split: option.splits)

lemma parse_loop_keys: "parse_loop cur tracks ls = Inr td \<Longrightarrow> map fst td = map fst tracks"
proof (induction ls arbitrary: cur tracks)
  case Nil
  then show ?case by simp
next
  case (Cons l ls)
  then show ?case
    by (auto split: sum.splits bool.splits if_splits option.splits dest: map_fst_dict_append)
qed

lemma parse_loop_ok:
  assumes "headers_well_formed ls" and "set (map fst tracks) = set track_names"
    and "\<forall>k. cur = Some k \<longrightarrow> k \<in> set track_names"
  shows "\<exists>td. parse_loop cur tracks ls = Inr td"
  using assms
proof (induction ls arbitrary: cur tracks)
  case Nil
  show ?case by simp
next
  case (Cons l ls)
  have wf: "headers_well_formed ls" and ok: "header_line_ok l"
    using Cons.prems(1) by (simp_all add: wf_Cons)
  have step: "\<exists>td. parse_loop c t ls = Inr td"
    if "set (map fst t) = set track_names" "\<forall>k. c = Some k \<longrightarrow> k \<in> set track_names" for c t
    using Cons.IH [OF wf that] .
  from ok consider (plain) "is_track_header l = Inr False"
    | (header) "is_track_header l = Inr True" "tl l \<in> set track_names"
    using header_line_ok_iff by blast
  then show ?case
  proof cases
    case header
    have "\<exists>td. parse_loop (Some (tl l)) tracks ls = Inr td"
      using Cons.prems(2) header(2) by (intro step) simp_all
    then show ?thesis
      using header(1) by simp
  next
    case plain
    have none: "\<exists>td. parse_loop None tracks ls = Inr td"
      using Cons.prems(2) by (intro step) simp_all
    have same: "\<exists>td. parse_loop cur tracks ls = Inr td"
      using Cons.prems(2,3) by (intro step)
    show ?thesis
    proof (cases "startswith l ''#END''")
      case True
      then show ?thesis
        using plain none by simp
    next
      case False
      show ?thesis
      proof (cases cur)
        case None
        then show ?thesis
          using plain False none by simp
      next
        case (Some k)
        show ?thesis
        proof (cases "k = []")
          case True
          then show ?thesis
            using plain False Some same by simp
        next
          case nonempty: False
          have "k \<in> set track_names"
            using Cons.prems(3) Some by simp
          then have "k \<in> fst ` set tracks"
            using Cons.prems(2) by simp
          then have "\<exists>t'. dict_append tracks k l = Inr t'"
            by (rule dict_append_ok)
          then obtain t' where t': "dict_append tracks k l = Inr t'" ..
          have "map fst t' = map fst tracks"
            using t' by (rule map_fst_dict_append)
          then have "set (map fst t') = set track_names"
            using Cons.prems(2) by simp
          then have "\<exists>td. parse_loop cur t' ls = Inr td"
            using Cons.prems(3) by (intro step)
          then show ?thesis
            using plain False Some nonempty t' by simp
        qed
      qed
    qed
  qed
qed

lemma snd_emit: "snd (emit xs r) = snd r"
  by (cases r) simp

lemma write_loop_ok:
  assumes "set (map fst td) = set track_names"
  shows "snd (write_loop td b ls) = None \<longleftrightarrow> headers_well_formed ls"
proof (induction ls arbitrary: b)
  case Nil
  show ?case by (simp add: headers_well_formed_def)
next
  case (Cons l ls)
  show ?case
  proof (cases "is_track_header l")
    case (Inl e)
    then show ?thesis
      by (simp add: wf_Cons header_line_ok_iff)
  next
    case (Inr h)
    show ?thesis
    proof (cases h)
      case False
      then show ?thesis
        using Inr by (simp add: wf_Cons header_line_ok_iff snd_emit Cons.IH)
    next
      case True
      have "map_of td (tl l) = None \<longleftrightarrow> tl l \<notin> set track_names"
        using assms by (simp add: map_of_eq_None_iff)
      then show ?thesis
        using Inr True
        by (cases "map_of td (tl l)") (simp_all add: wf_Cons header_line_ok_iff dict_get_def snd_emit Cons.IH)
    qed
  qed
qed

lemma keys_empty_tracks: "map fst empty_tracks = track_names"
  by (simp add: empty_tracks_def comp_def)

text \<open>
  C9. Both loops test the seventh character of every stripped line that starts with
  \<open>#TRACK\<close> and take the line without its first character as the key. \<open>parse_file\<close>
  followed by \<open>write_to_file\<close> runs through without an exception exactly when every such
  line has a seventh character outside \<open>1\<close> to \<open>8\<close> or is \<open>#TRACKn\<close> for one digit \<open>n\<close>
  from 1 to 8; under that condition \<open>parse_file\<close> alone does not raise either, and
  \<open>write_to_file\<close> with any dictionary of the eight tracks raises exactly when the
  condition fails.
\<close>

theorem parse_write_complete_iff:
  "((\<exists>td. parse_loop None empty_tracks ls = Inr td \<and> snd (write_loop td False ls) = None)
      \<longleftrightarrow> headers_well_formed ls)
   \<and> (headers_well_formed ls \<longrightarrow> (\<exists>td. parse_loop None empty_tracks ls = Inr td))
   \<and> (set (map fst track_data) = set track_names \<longrightarrow>
        (snd (write_loop track_data b ls) = None \<longleftrightarrow> headers_well_formed ls))"
proof -
  have parse: "\<exists>td. parse_loop None empty_tracks ls = Inr td" if "headers_well_formed ls"
    using that by (rule parse_loop_ok) (simp_all add: keys_empty_tracks)
  have written: "snd (write_loop td False ls) = None \<longleftrightarrow> headers_well_formed ls"
    if "parse_loop None empty_tracks ls = Inr td" for td
  proof -
    have "map fst td = track_names"
      using parse_loop_keys [OF that] by (simp add: keys_empty_tracks)
    then show ?thesis
      by (intro write_loop_ok) simp
  qed
  have both: "(\<exists>td. parse_loop None empty_tracks ls = Inr td \<and> snd (write_loop td False ls) = None)
      \<longleftrightarrow> headers_well_formed ls"
    using parse written by blast
  show ?thesis
    using both parse write_loop_ok [of track_data b ls] by blast
qed

theorem parse_write_complete_iff_witness:
  "headers_well_formed [''#TRACK1'', ''a'', ''#END'', ''#TRACKX'']
   \<and> (\<exists>td. parse_loop None empty_tracks [''#TRACK1'', ''a'', ''#END'', ''#TRACKX''] = Inr td
         \<and> snd (write_loop td False [''#TRACK1'', ''a'', ''#END'', ''#TRACKX'']) = None)
   \<and> \<not> headers_well_formed [''#TRACK'']
   \<and> parse_loop None empty_tracks [''#TRACK''] = Inl IndexError
   \<and> write_loop empty_tracks False [''#TRACK''] = ([], Some IndexError)
   \<and> \<not> headers_well_formed [''#TRACK21'', ''x'']
   \<and> parse_loop None empty_tracks [''#TRACK21'', ''x''] = Inl KeyError
   \<and> write_loop empty_tracks False [''#TRACK21'', ''x''] = ([''#TRACK21''], Some KeyError)"
proof -
  have wf: "headers_well_formed [''#TRACK1'', ''a'', ''#END'', ''#TRACKX'']"
    by code_simp
  have bad: "\<not> headers_well_formed [''#TRACK'']" "\<not> headers_well_formed [''#TRACK21'', ''x'']"
    by code_simp+
  have runs: "parse_loop None empty_tracks [''#TRACK''] = Inl IndexError"
    "write_loop empty_tracks False [''#TRACK''] = ([], Some IndexError)"
    "parse_loop None empty_tracks [''#TRACK21'', ''x''] = Inl KeyError"
    "write_loop empty_tracks False [''#TRACK21'', ''x''] = ([''#TRACK21''], Some KeyError)"
    by code_simp+
  show ?thesis
    using parse_write_complete_iff [of "[''#TRACK1'', ''a'', ''#END'', ''#TRACKX'']"] wf bad runs
    by simp
qed

section \<open>The note classifier\<close>

text \<open>
  What the classifier does with lines of at most three tab separated fields: a line of
  three fields gives one note, in line order, a chip exactly when the second field is
  \<open>0\<close>; a line of fewer fields gives nothing.
\<close>

lemma parse_track_notes_upto_three:
  assumes "\<forall>l\<in>set ls. length (split tab l) \<le> 3"
  shows "parse_track_notes acc ls =
     Inr (acc @ map (\<lambda>l. \<lparr>note_timestamp = split tab l ! 0,
                            note_type = (if split tab l ! 1 = ''0'' then ''chip'' else ''hold'')\<rparr>)
                 (filter (\<lambda>l. length (split tab l) = 3) ls))"
  using assms
proof (induction ls arbitrary: acc)
  case Nil
  show ?case by simp
next
  case (Cons l ls)
  show ?case
  proof (cases "length (split tab l) = 3")
    case True
    then obtain a b c where "split tab l = [a, b, c]"
      by (auto simp: length_Suc_conv numeral_3_eq_3)
    then show ?thesis
      using Cons by simp
  next
    case False
    then have "\<not> 3 \<le> length (split tab l)"
      using Cons.prems by auto
    then show ?thesis
      using Cons False by simp
  qed
qed

text \<open>
  C7. The guard of the classifier accepts a line of three or more fields, and the
  unpacking that follows takes exactly three: a line of a playable track with four
  fields raises \<open>ValueError\<close> where the claim has one note.
\<close>

theorem four_fields_raise:
  "length (split tab (''001,01,00'' @ [tab] @ ''0'' @ [tab] @ ''2'' @ [tab] @ ''3'')) = 4
   \<and> parse_track_notes [] [''001,01,00'' @ [tab] @ ''0'' @ [tab] @ ''2'' @ [tab] @ ''3''] = Inl ValueError
   \<and> parse_notes_in_tracks
        [(''TRACK1'', []), (''TRACK2'', [''001,01,00'' @ [tab] @ ''0'' @ [tab] @ ''2'' @ [tab] @ ''3'']),
         (''TRACK3'', []), (''TRACK4'', []), (''TRACK5'', []), (''TRACK6'', []), (''TRACK7'', []),
         (''TRACK8'', [])] = Inl ValueError
   \<and> parse_track_notes [] [''001,01,00'' @ [tab] @ ''0'' @ [tab] @ ''2'', ''x'', ''001,02,00'' @ [tab] @ ''24'' @ [tab] @ ''2'']
       = Inr [\<lparr>note_timestamp = ''001,01,00'', note_type = ''chip''\<rparr>,
              \<lparr>note_timestamp = ''001,02,00'', note_type = ''hold''\<rparr>]"
  by code_simp

section \<open>The permutation engine\<close>

lemma selections_sound: "(y, ys) \<in> set (selections xs) \<Longrightarrow> mset xs = add_mset y (mset ys)"
  by (induction xs arbitrary: y ys) auto

lemma selections_complete: "y \<in> set xs \<Longrightarrow> \<exists>ys. (y, ys) \<in> set (selections xs)"
proof (induction xs)
  case Nil
  then show ?case by simp
next
  case (Cons x xs)
  show ?case
  proof (cases "y = x")
    case True
    then show ?thesis by auto
  next
    case False
    then obtain ys where "(y, ys) \<in> set (selections xs)"
      using Cons by auto
    then have "(y, x # ys) \<in> set (selections (x # xs))"
      by force
    then show ?thesis ..
  qed
qed

lemma permutations_sound:
  "p \<in> set (permutations_of_length n xs) \<Longrightarrow> length xs = n \<Longrightarrow> mset p = mset xs"
proof (induction n arbitrary: xs p)
  case 0
  then show ?case by simp
next
  case (Suc n)
  from Suc.prems(1) obtain y ys p' where sel: "(y, ys) \<in> set (selections xs)"
    and p: "p = y # p'" and p': "p' \<in> set (permutations_of_length n ys)"
    by auto
  have m: "mset xs = add_mset y (mset ys)"
    using sel by (rule selections_sound)
  then have "size (mset xs) = Suc (size (mset ys))"
    by simp
  then have "length ys = n"
    using Suc.prems(2) by simp
  with p' have "mset p' = mset ys"
    by (rule Suc.IH)
  then show ?case
    by (simp add: p m)
qed

lemma permutations_complete:
  "length xs = n \<Longrightarrow> mset p = mset xs \<Longrightarrow> p \<in> set (permutations_of_length n xs)"
proof (induction n arbitrary: xs p)
  case 0
  then show ?case by simp
next
  case (Suc n)
  from Suc.prems have "length p = Suc n"
    by (metis size_mset)
  then obtain y p' where p: "p = y # p'"
    by (cases p) auto
  then have "y \<in> set xs"
    using Suc.prems(2) by (metis list.set_intros(1) set_mset_mset)
  then obtain ys where sel: "(y, ys) \<in> set (selections xs)"
    using selections_complete by fastforce
  have m: "mset xs = add_mset y (mset ys)"
    using sel by (rule selections_sound)
  then have "size (mset xs) = Suc (size (mset ys))"
    by simp
  then have len: "length ys = n"
    using Suc.prems(1) by simp
  have "mset p' = mset ys"
    using Suc.prems(2) m by (simp add: p)
  with len have "p' \<in> set (permutations_of_length n ys)"
    by (rule Suc.IH)
  then show ?case
    using sel p by force
qed

lemma set_generate_all_combinations:
  "set (generate_all_combinations xs) = {p. mset p = mset xs}"
  unfolding generate_all_combinations_def
  using permutations_sound [of _ "length xs" xs] permutations_complete [of xs "length xs"]
  by blast

lemma set_all_orders:
  "set all_orders = {b @ f | b f. mset b = mset ''abcd'' \<and> mset f = mset ''LR''}"
  unfolding all_orders_def by (auto simp: set_generate_all_combinations)

lemma all_orders_eq:
  "all_orders =
    [''abcdLR'', ''abcdRL'', ''abdcLR'', ''abdcRL'', ''acbdLR'', ''acbdRL'', ''acdbLR'', ''acdbRL'',
     ''adbcLR'', ''adbcRL'', ''adcbLR'', ''adcbRL'', ''bacdLR'', ''bacdRL'', ''badcLR'', ''badcRL'',
     ''bcadLR'', ''bcadRL'', ''bcdaLR'', ''bcdaRL'', ''bdacLR'', ''bdacRL'', ''bdcaLR'', ''bdcaRL'',
     ''cabdLR'', ''cabdRL'', ''cadbLR'', ''cadbRL'', ''cbadLR'', ''cbadRL'', ''cbdaLR'', ''cbdaRL'',
     ''cdabLR'', ''cdabRL'', ''cdbaLR'', ''cdbaRL'', ''dabcLR'', ''dabcRL'', ''dacbLR'', ''dacbRL'',
     ''dbacLR'', ''dbacRL'', ''dbcaLR'', ''dbcaRL'', ''dcabLR'', ''dcabRL'', ''dcbaLR'', ''dcbaRL'']"
  by code_simp






lemma parse_file_keys:
  "parse_file (Some content) = Inr x \<Longrightarrow> \<exists>td. x = Some td \<and> map fst td = track_names"
  by (auto simp: parse_file_def keys_empty_tracks split: sum.splits dest: parse_loop_keys)


lemma small_chart_run:
  "(case main False ''s'' (Some small_chart) of
      Finished fs \<Rightarrow> length fs = 48 \<and> fs ! 0 = (''s_ran_abcdLR.vox'', small_chart)
    | _ \<Rightarrow> False)"
  by code_simp

lemma small_chart_Finished:
  "\<exists>files. main False ''s'' (Some small_chart) = Finished files \<and> length files = 48
     \<and> files ! 0 = (''s_ran_abcdLR.vox'', small_chart)"
  using small_chart_run by (cases "main False ''s'' (Some small_chart)") simp_all



text \<open>
  C5. The value of the flag is stored in \<open>s_random\<close> and never read: with the flag set
  the run is the run without it, and on the small chart it writes the 48 variants, not
  one. \<open>randomize_tracks\<close> is not called anywhere.
\<close>

theorem flag_has_no_effect:
  "main True base file = main False base file
   \<and> (\<exists>files. main True ''s'' (Some small_chart) = Finished files \<and> length files = 48)"
proof -
  have same: "main True b f = main False b f" for b f
    by (simp add: main_def)
  obtain files where "main False ''s'' (Some small_chart) = Finished files" "length files = 48"
    using small_chart_Finished by blast
  then show ?thesis
    using same by auto
qed

section \<open>The track contents of a variant\<close>

lemma relevant_tracks_eq:
  "relevant_tracks = [''TRACK2'', ''TRACK3'', ''TRACK4'', ''TRACK5'', ''TRACK6'', ''TRACK7'']"
  by code_simp

lemma dict_get_all_total:
  "set ks \<subseteq> fst ` set d \<Longrightarrow> dict_get_all d ks = Inr (map (\<lambda>k. the (map_of d k)) ks)"
proof (induction ks)
  case Nil
  show ?case by simp
next
  case (Cons k ks)
  then obtain v where "map_of d k = Some v"
    by (metis list.set_intros(1) map_of_eq_None_iff not_Some_eq subsetD)
  then show ?case
    using Cons by (simp add: dict_get_def)
qed

lemma dict_get_Some: "map_of d k = Some v \<Longrightarrow> dict_get d k = Inr v"
  by (simp add: dict_get_def)

lemma sources_of_order:
  assumes "specific_order \<in> set all_orders"
  shows "\<exists>srcs. dict_get_all track_identifiers_inverse specific_order = Inr srcs
     \<and> mset srcs = mset relevant_tracks"
proof -
  let ?g = "\<lambda>k. the (map_of track_identifiers_inverse k)"
  obtain b f where o: "specific_order = b @ f" and b: "mset b = mset ''abcd''"
    and f: "mset f = mset ''LR''"
    using assms unfolding set_all_orders by blast
  have m: "mset specific_order = mset ''abcdLR''"
    using b f by (simp add: o)
  then have "set specific_order = set ''abcdLR''"
    by (rule mset_eq_setD)
  then have "set specific_order \<subseteq> fst ` set track_identifiers_inverse"
    by (simp add: track_identifiers_inverse_def)
  then have get: "dict_get_all track_identifiers_inverse specific_order = Inr (map ?g specific_order)"
    by (rule dict_get_all_total)
  have "mset (map ?g specific_order) = image_mset ?g (mset ''abcdLR'')"
    using m by (metis mset_map)
  also have "\<dots> = mset (map ?g ''abcdLR'')"
    by (metis mset_map)
  also have "map ?g ''abcdLR'' = [''TRACK3'', ''TRACK4'', ''TRACK5'', ''TRACK6'', ''TRACK2'', ''TRACK7'']"
    by (simp add: track_identifiers_inverse_def)
  also have "mset [''TRACK3'', ''TRACK4'', ''TRACK5'', ''TRACK6'', ''TRACK2'', ''TRACK7''] = mset relevant_tracks"
    unfolding relevant_tracks_eq by simp
  finally show ?thesis
    using get by blast
qed

lemma new_track_data_of_sources:
  assumes keys: "map fst td = track_names"
    and get: "dict_get_all track_identifiers_inverse specific_order = Inr srcs"
    and m: "mset srcs = mset relevant_tracks"
  shows "\<exists>ntd. new_track_data td specific_order = Inr ntd
     \<and> map fst ntd = [''TRACK1'', ''TRACK8'', ''TRACK3'', ''TRACK4'', ''TRACK5'', ''TRACK6'', ''TRACK2'', ''TRACK7'']
     \<and> dict_get ntd ''TRACK1'' = dict_get td ''TRACK1''
     \<and> dict_get ntd ''TRACK8'' = dict_get td ''TRACK8''
     \<and> map (dict_get ntd) [''TRACK3'', ''TRACK4'', ''TRACK5'', ''TRACK6'', ''TRACK2'', ''TRACK7'']
         = map (dict_get td) srcs"
proof -
  have "length srcs = 6"
    using mset_eq_length [OF m] by (simp add: relevant_tracks_eq)
  then obtain s1 s2 s3 s4 s5 s6 where srcs: "srcs = [s1, s2, s3, s4, s5, s6]"
    by (auto simp: length_Suc_conv eval_nat_numeral)
  have dom: "\<exists>v. map_of td k = Some v" if "k \<in> set track_names" for k
  proof -
    have "k \<in> fst ` set td"
      using that keys by (metis set_map)
    then show ?thesis
      by (metis map_of_eq_None_iff not_Some_eq)
  qed
  have "set srcs = set relevant_tracks"
    using m by (rule mset_eq_setD)
  then have "set srcs \<subseteq> set track_names"
    by (simp add: relevant_tracks_eq track_names_eq)
  then have mem: "s1 \<in> set track_names" "s2 \<in> set track_names" "s3 \<in> set track_names"
    "s4 \<in> set track_names" "s5 \<in> set track_names" "s6 \<in> set track_names"
    by (simp_all add: srcs)
  obtain v1 v2 v3 v4 v5 v6 where v: "map_of td s1 = Some v1" "map_of td s2 = Some v2"
    "map_of td s3 = Some v3" "map_of td s4 = Some v4" "map_of td s5 = Some v5"
    "map_of td s6 = Some v6"
    using mem dom by metis
  obtain a h where ah: "map_of td ''TRACK1'' = Some a" "map_of td ''TRACK8'' = Some h"
    using dom [of "''TRACK1''"] dom [of "''TRACK8''"] by (auto simp: track_names_eq)
  have "new_track_data td specific_order =
      Inr [(''TRACK1'', a), (''TRACK8'', h), (''TRACK3'', v1), (''TRACK4'', v2), (''TRACK5'', v3),
           (''TRACK6'', v4), (''TRACK2'', v5), (''TRACK7'', v6)]"
    by (simp add: new_track_data_def get srcs original_keys_def dict_get_def v ah)
  then show ?thesis
    by (simp add: dict_get_def v ah srcs)
qed

text \<open>
  C1. For the track contents that \<open>parse_file\<close> returned and each of the 48 orders, the
  new track contents exist (no key is missing) and have the eight track keys; tracks 1
  and 8 hold the original buffers; tracks 3, 4, 5, 6, 2, 7 hold, in this order, the
  original buffers of the source tracks of the order, which are the six playable tracks
  each taken once; so the multiset of the buffers of tracks 2 to 7 is that of the
  original.
\<close>

theorem lane_conservation:
  assumes "parse_file (Some content) = Inr (Some track_data)"
    and "specific_order \<in> set all_orders"
  shows "\<exists>ntd srcs. new_track_data track_data specific_order = Inr ntd
     \<and> dict_get_all track_identifiers_inverse specific_order = Inr srcs
     \<and> mset srcs = mset relevant_tracks
     \<and> map (dict_get ntd) [''TRACK3'', ''TRACK4'', ''TRACK5'', ''TRACK6'', ''TRACK2'', ''TRACK7'']
         = map (dict_get track_data) srcs
     \<and> dict_get ntd ''TRACK1'' = dict_get track_data ''TRACK1''
     \<and> dict_get ntd ''TRACK8'' = dict_get track_data ''TRACK8''
     \<and> mset (map (dict_get ntd) relevant_tracks) = mset (map (dict_get track_data) relevant_tracks)
     \<and> map fst ntd = [''TRACK1'', ''TRACK8'', ''TRACK3'', ''TRACK4'', ''TRACK5'', ''TRACK6'', ''TRACK2'', ''TRACK7'']
     \<and> (\<forall>k\<in>set track_names. \<exists>buffer. dict_get track_data k = Inr buffer)"
proof -
  have keys: "map fst track_data = track_names"
    using parse_file_keys [OF assms(1)] by simp
  obtain srcs where get: "dict_get_all track_identifiers_inverse specific_order = Inr srcs"
    and m: "mset srcs = mset relevant_tracks"
    using sources_of_order [OF assms(2)] by blast
  obtain ntd where ntd: "new_track_data track_data specific_order = Inr ntd"
    and first: "map fst ntd = [''TRACK1'', ''TRACK8'', ''TRACK3'', ''TRACK4'', ''TRACK5'', ''TRACK6'', ''TRACK2'', ''TRACK7'']"
    and one: "dict_get ntd ''TRACK1'' = dict_get track_data ''TRACK1''"
    and eight: "dict_get ntd ''TRACK8'' = dict_get track_data ''TRACK8''"
    and moved: "map (dict_get ntd) [''TRACK3'', ''TRACK4'', ''TRACK5'', ''TRACK6'', ''TRACK2'', ''TRACK7'']
         = map (dict_get track_data) srcs"
    using new_track_data_of_sources [OF keys get m] by (elim exE conjE) (rule that)
  have "mset (map (dict_get ntd) relevant_tracks)
      = mset (map (dict_get ntd) [''TRACK3'', ''TRACK4'', ''TRACK5'', ''TRACK6'', ''TRACK2'', ''TRACK7''])"
    unfolding relevant_tracks_eq by simp
  also have "\<dots> = image_mset (dict_get track_data) (mset srcs)"
    unfolding moved by simp
  also have "\<dots> = mset (map (dict_get track_data) relevant_tracks)"
    unfolding m by simp
  finally have same: "mset (map (dict_get ntd) relevant_tracks)
      = mset (map (dict_get track_data) relevant_tracks)" .
  have "\<exists>buffer. dict_get track_data k = Inr buffer" if "k \<in> set track_names" for k
  proof -
    have "k \<in> fst ` set track_data"
      using that keys by (metis set_map)
    then obtain v where "map_of track_data k = Some v"
      by (metis map_of_eq_None_iff not_Some_eq)
    then show ?thesis
      by (simp add: dict_get_def)
  qed
  then have all: "\<forall>k\<in>set track_names. \<exists>buffer. dict_get track_data k = Inr buffer" ..
  show ?thesis
    by (rule exI [of _ ntd], rule exI [of _ srcs], intro conjI)
      (rule ntd get m moved one eight same first all)+
qed

theorem lane_conservation_witness:
  "parse_file (Some small_chart) =
     Inr (Some [(''TRACK1'', [''laser'']),
                (''TRACK2'', [''001,01,00'' @ [tab] @ ''0'' @ [tab] @ ''2'']),
                (''TRACK3'', [''001,01,00'' @ [tab] @ ''0'' @ [tab] @ ''2'',
                              ''001,01,01'' @ [tab] @ ''24'' @ [tab] @ ''2'']),
                (''TRACK4'', []), (''TRACK5'', []), (''TRACK6'', []), (''TRACK7'', []),
                (''TRACK8'', [])])
   \<and> ''badcRL'' \<in> set all_orders
   \<and> new_track_data
        [(''TRACK1'', [''laser'']),
         (''TRACK2'', [''001,01,00'' @ [tab] @ ''0'' @ [tab] @ ''2'']),
         (''TRACK3'', [''001,01,00'' @ [tab] @ ''0'' @ [tab] @ ''2'',
                       ''001,01,01'' @ [tab] @ ''24'' @ [tab] @ ''2'']),
         (''TRACK4'', []), (''TRACK5'', []), (''TRACK6'', []), (''TRACK7'', []),
         (''TRACK8'', [])] ''badcRL''
     = Inr [(''TRACK1'', [''laser'']), (''TRACK8'', []), (''TRACK3'', []),
            (''TRACK4'', [''001,01,00'' @ [tab] @ ''0'' @ [tab] @ ''2'',
                          ''001,01,01'' @ [tab] @ ''24'' @ [tab] @ ''2'']),
            (''TRACK5'', []), (''TRACK6'', []), (''TRACK2'', []),
            (''TRACK7'', [''001,01,00'' @ [tab] @ ''0'' @ [tab] @ ''2''])]
   \<and> (\<exists>ntd. new_track_data
        [(''TRACK1'', [''laser'']),
         (''TRACK2'', [''001,01,00'' @ [tab] @ ''0'' @ [tab] @ ''2'']),
         (''TRACK3'', [''001,01,00'' @ [tab] @ ''0'' @ [tab] @ ''2'',
                       ''001,01,01'' @ [tab] @ ''24'' @ [tab] @ ''2'']),
         (''TRACK4'', []), (''TRACK5'', []), (''TRACK6'', []), (''TRACK7'', []),
         (''TRACK8'', [])] ''badcRL'' = Inr ntd
       \<and> mset (map (dict_get ntd) relevant_tracks)
         = mset (map (dict_get
             [(''TRACK1'', [''laser'']),
              (''TRACK2'', [''001,01,00'' @ [tab] @ ''0'' @ [tab] @ ''2'']),
              (''TRACK3'', [''001,01,00'' @ [tab] @ ''0'' @ [tab] @ ''2'',
                            ''001,01,01'' @ [tab] @ ''24'' @ [tab] @ ''2'']),
              (''TRACK4'', []), (''TRACK5'', []), (''TRACK6'', []), (''TRACK7'', []),
              (''TRACK8'', [])]) relevant_tracks))"
proof -
  let ?td = "[(''TRACK1'', [''laser'']),
         (''TRACK2'', [''001,01,00'' @ [tab] @ ''0'' @ [tab] @ ''2'']),
         (''TRACK3'', [''001,01,00'' @ [tab] @ ''0'' @ [tab] @ ''2'',
                       ''001,01,01'' @ [tab] @ ''24'' @ [tab] @ ''2'']),
         (''TRACK4'', []), (''TRACK5'', []), (''TRACK6'', []), (''TRACK7'', []),
         (''TRACK8'', [])]"
  have parse: "parse_file (Some small_chart) = Inr (Some ?td)"
    by code_simp
  have mem: "''badcRL'' \<in> set all_orders"
    unfolding all_orders_eq by simp
  have new: "new_track_data ?td ''badcRL''
     = Inr [(''TRACK1'', [''laser'']), (''TRACK8'', []), (''TRACK3'', []),
            (''TRACK4'', [''001,01,00'' @ [tab] @ ''0'' @ [tab] @ ''2'',
                          ''001,01,01'' @ [tab] @ ''24'' @ [tab] @ ''2'']),
            (''TRACK5'', []), (''TRACK6'', []), (''TRACK2'', []),
            (''TRACK7'', [''001,01,00'' @ [tab] @ ''0'' @ [tab] @ ''2''])]"
    by code_simp
  obtain ntd where "new_track_data ?td ''badcRL'' = Inr ntd"
    and "mset (map (dict_get ntd) relevant_tracks) = mset (map (dict_get ?td) relevant_tracks)"
    using lane_conservation [OF parse mem] by (elim exE conjE) (rule that)
  then have "\<exists>ntd. new_track_data ?td ''badcRL'' = Inr ntd
       \<and> mset (map (dict_get ntd) relevant_tracks) = mset (map (dict_get ?td) relevant_tracks)"
    by (intro exI conjI)
  with parse mem new show ?thesis
    by (intro conjI)
qed

section \<open>The end position\<close>












section \<open>The round trip\<close>

subsection \<open>Text and lines\<close>








subsection \<open>What the parser collects\<close>












subsection \<open>What the writer puts out\<close>











subsection \<open>The variants\<close>








end
